theory Spec2Isabelle
  imports Main "HOL-Library.Word"
begin

unbundle bit_operations_syntax

section \<open>Data model of the CHIP-8 machine\<close>

text \<open>
  The interpreter exists in two source variants: \<^verbatim>\<open>chip8.cpp\<close> (an earlier
  state of the file, most of the E and F families still stubs) and the later variant
  with the timers, the keypad and the full decoder. Both work on one \<^verbatim>\<open>Chip8\<close>
  object reached through \<^verbatim>\<open>chip.regs\<close>, \<^verbatim>\<open>chip.ram\<close>,
  \<^verbatim>\<open>chip.stack\<close> and \<^verbatim>\<open>chip.screen\<close>. The header declaring the
  object is not among the sources, so the field types below follow the uses in the code
  and the data model of the specification.
\<close>

type_synonym u8 = "8 word"
type_synonym u16 = "16 word"

text \<open>
  Modelled from the spec: the macros \<^verbatim>\<open>RAM_SIZE\<close> and \<^verbatim>\<open>ROM_START\<close>
  of the missing header. The memory bank has 4096 bytes and programs are loaded at
  address 0x200.
\<close>

definition RAM_SIZE :: nat where
  "RAM_SIZE = 4096"

definition ROM_START :: nat where
  "ROM_START = 0x200"

text \<open>
  The call stack has 16 entries: \<^verbatim>\<open>printStack\<close> walks indices 0 to 15 and
  the call guard of \<^verbatim>\<open>chip8.cpp\<close> is written \<^verbatim>\<open>16 - 1\<close>.
\<close>

definition STACK_SIZE :: nat where
  "STACK_SIZE = 16"

text \<open>
  Modelled from the spec: the display buffer, a grid of 64 columns and 32 rows of one-bit
  pixels; \<open>screen x y\<close> is the pixel in column \<open>x\<close> of row \<open>y\<close>.
\<close>

type_synonym screen = "nat \<Rightarrow> nat \<Rightarrow> bool"

text \<open>
  Modelled from the spec: the \<^verbatim>\<open>Chip8\<close> object and its register struct, whose
  declarations are in the missing header. The register struct's sixteen byte fields
  \<^verbatim>\<open>v0\<close> to \<^verbatim>\<open>vF\<close> are the values of \<open>v\<close> at 0 to 15; the index
  register and PC have 16 bits, the timers 8. The stack pointer is unsigned and is taken
  to be a byte. Memory and stack are heap arrays of \<open>RAM_SIZE\<close> bytes and
  \<open>STACK_SIZE\<close> 16-bit addresses: \<open>ram\<close> and \<open>stack\<close> give the cell contents, and
  every access checks its index against the array size (see \<open>access\<close> below).
  \<open>cerr\<close> is the list of lines the program has written to the standard error stream.
\<close>

record chip8 =
  v :: "nat \<Rightarrow> u8"
  I :: u16
  pc :: u16
  sp :: u8
  delay_timer :: u8
  sound_timer :: u8
  ram :: "nat \<Rightarrow> u8"
  stack :: "nat \<Rightarrow> u16"
  screen :: screen
  cerr :: "string list"

text \<open>
  C++ gives no meaning to an array access outside the array. Such an access ends the
  run of the model with the offending index and the machine as it was at that moment.
\<close>

datatype access = RamOutOfBounds nat | StackOutOfBounds nat

type_synonym 'a result = "(access \<times> chip8) + 'a"

section \<open>Register access\<close>

text \<open>
  \<^verbatim>\<open>get_value_in_Vreg\<close> and \<^verbatim>\<open>put_value_in_Vreg\<close> as \<^verbatim>\<open>chip8.cpp\<close>
  defines them: a switch over the register number, with numbers outside 0 to 15 read as
  \<^verbatim>\<open>(u8) -1\<close> and ignored on writes. The later variant calls overloads on the
  register struct whose bodies are not among the sources; they are taken to act on the
  struct in the same way. Register numbers are \<^verbatim>\<open>int\<close> in the source and never
  negative, since every caller passes a masked nibble, a loop counter from 0 or a literal.
\<close>

definition get_value_in_Vreg :: "nat \<Rightarrow> chip8 \<Rightarrow> u8" where
  "get_value_in_Vreg regNum chip = (if regNum > 15 then 255 else v chip regNum)"

definition put_value_in_Vreg :: "nat \<Rightarrow> u8 \<Rightarrow> chip8 \<Rightarrow> chip8" where
  "put_value_in_Vreg regNum val chip =
     (if regNum > 15 then chip else chip\<lparr>v := (v chip)(regNum := val)\<rparr>)"

section \<open>Instruction fields\<close>

text \<open>
  The local variables that \<^verbatim>\<open>perform_instruction\<close> computes from the instruction
  word, with the source's shifts and masks.
\<close>

definition opcode :: "u16 \<Rightarrow> u8" where
  "opcode instruction = ucast (drop_bit 12 instruction)"

definition nnn :: "u16 \<Rightarrow> u16" where
  "nnn instruction = instruction AND 0xFFF"

definition kk :: "u16 \<Rightarrow> u8" where
  "kk instruction = ucast (instruction AND 0xFF)"

definition x_reg_num :: "u16 \<Rightarrow> nat" where
  "x_reg_num instruction = unat (drop_bit 8 instruction AND 0xF)"

definition y_reg_num :: "u16 \<Rightarrow> nat" where
  "y_reg_num instruction = unat (drop_bit 4 instruction AND 0xF)"

definition finalNib :: "u16 \<Rightarrow> u8" where
  "finalNib instruction = ucast (instruction AND 0xF)"

definition last8 :: "u16 \<Rightarrow> u8" where
  "last8 instruction = ucast (instruction AND 0xFF)"

section \<open>Keypad\<close>

text \<open>
  Modelled from the spec: the host key codes \<^verbatim>\<open>KEYCODE_1\<close> to
  \<^verbatim>\<open>KEYCODE_V\<close> of the missing key map header, sixteen distinct keys. The global
  \<^verbatim>\<open>key_state\<close> says for each of them whether it is held down.
  \<^verbatim>\<open>get_keycode_from_u8\<close> is not among the sources either; it follows the table of
  its string-keyed predecessor \<^verbatim>\<open>get_key_from_u8\<close>, whose default branch
  (\<^verbatim>\<open>"Unknown"\<close>, a key nobody presses) is \<open>None\<close> here.
\<close>

datatype keycode =
    KEYCODE_1 | KEYCODE_2 | KEYCODE_3 | KEYCODE_4
  | KEYCODE_Q | KEYCODE_W | KEYCODE_E | KEYCODE_R
  | KEYCODE_A | KEYCODE_S | KEYCODE_D | KEYCODE_F
  | KEYCODE_Z | KEYCODE_X | KEYCODE_C | KEYCODE_V

type_synonym key_state = "keycode \<Rightarrow> bool"

definition get_keycode_from_u8 :: "u8 \<Rightarrow> keycode option" where
  "get_keycode_from_u8 val =
     (if val = 0x1 then Some KEYCODE_1
      else if val = 0x2 then Some KEYCODE_2
      else if val = 0x3 then Some KEYCODE_3
      else if val = 0xC then Some KEYCODE_4
      else if val = 0x4 then Some KEYCODE_Q
      else if val = 0x5 then Some KEYCODE_W
      else if val = 0x6 then Some KEYCODE_E
      else if val = 0xD then Some KEYCODE_R
      else if val = 0x7 then Some KEYCODE_A
      else if val = 0x8 then Some KEYCODE_S
      else if val = 0x9 then Some KEYCODE_D
      else if val = 0xE then Some KEYCODE_F
      else if val = 0xA then Some KEYCODE_Z
      else if val = 0x0 then Some KEYCODE_X
      else if val = 0xB then Some KEYCODE_C
      else if val = 0xF then Some KEYCODE_V
      else None)"

definition key_down :: "key_state \<Rightarrow> keycode option \<Rightarrow> bool" where
  "key_down key_state keycode = (case keycode of None \<Rightarrow> False | Some k \<Rightarrow> key_state k)"

section \<open>Display\<close>

text \<open>
  Modelled from the spec: \<^verbatim>\<open>clear_screen\<close> of the missing screen module, which
  sets every pixel to zero.
\<close>

definition clear_screen :: "screen \<Rightarrow> screen" where
  "clear_screen scr = (\<lambda>x y. False)"

text \<open>
  Modelled from the spec: one sprite bit XORed into the pixel at \<open>(px, py)\<close>, the step
  of \<^verbatim>\<open>draw_pixel_row\<close>. The pair is the collision flag so far and the buffer.
  A 0 bit changes nothing; a 1 bit flips the pixel, and a set pixel flipped to zero is a
  collision; a pixel past column 63 falls off the buffer and is ignored.
\<close>

definition xor_pixel :: "nat \<Rightarrow> nat \<Rightarrow> bool \<Rightarrow> bool \<times> screen \<Rightarrow> bool \<times> screen" where
  "xor_pixel px py b cs =
     (if b \<and> px < 64
      then (fst cs \<or> snd cs px py, (snd cs)(px := (snd cs px)(py := \<not> snd cs px py)))
      else cs)"

text \<open>
  Modelled from the spec: \<^verbatim>\<open>draw_pixel_row\<close> of the missing screen module. The
  8 bits of the row byte are drawn from the most significant one, bit \<open>bit_index\<close> at
  \<open>(x + bit_index, y)\<close>. The result is the collision flag of the row and the new
  buffer.
\<close>

definition draw_pixel_row :: "nat \<Rightarrow> nat \<Rightarrow> screen \<Rightarrow> u8 \<Rightarrow> bool \<times> screen" where
  "draw_pixel_row x y scr cur_byte =
     fold (\<lambda>bit_index. xor_pixel (x + bit_index) y (bit cur_byte (7 - bit_index)))
       [0 ..< 8] (False, scr)"

section \<open>Fetch\<close>

text \<open>
  \<^verbatim>\<open>fetch_instruction\<close>: the two bytes at \<open>pc\<close> and \<open>pc + 1\<close>, high byte first,
  then \<open>pc\<close> advances by 2 in 16 bits. The index \<open>pc + 1\<close> is computed in
  \<^verbatim>\<open>int\<close> and does not wrap.
\<close>

definition fetch_instruction :: "chip8 \<Rightarrow> (u16 \<times> chip8) result" where
  "fetch_instruction chip =
     (let pc0 = unat (pc chip) in
      if pc0 \<ge> RAM_SIZE then Inl (RamOutOfBounds pc0, chip)
      else if pc0 + 1 \<ge> RAM_SIZE then Inl (RamOutOfBounds (pc0 + 1), chip)
      else Inr (push_bit 8 (ucast (ram chip pc0)) OR ucast (ram chip (pc0 + 1)),
                chip\<lparr>pc := pc chip + 2\<rparr>))"

section \<open>Decoder, later variant\<close>

text \<open>Opcode 00EE: the stack pointer is decremented, then the stack is read at it.\<close>

definition op_00EE :: "chip8 \<Rightarrow> chip8 result" where
  "op_00EE chip =
     (let chip1 = chip\<lparr>sp := sp chip - 1\<rparr> in
      if unat (sp chip1) < STACK_SIZE
      then Inr (chip1\<lparr>pc := stack chip1 (unat (sp chip1))\<rparr>)
      else Inl (StackOutOfBounds (unat (sp chip1)), chip1))"

text \<open>
  Opcode 2nnn: the guard keeps the write inside the stack, so the arm has no
  out-of-range branch.
\<close>

definition op_2nnn :: "u16 \<Rightarrow> chip8 \<Rightarrow> chip8" where
  "op_2nnn instruction chip =
     (if sp chip \<ge> 15 then chip\<lparr>cerr := cerr chip @ [''Stack overflow'']\<rparr>
      else chip\<lparr>stack := (stack chip)(unat (sp chip) := pc chip),
                sp := sp chip + 1,
                pc := instruction AND 0xFFF\<rparr>)"

text \<open>
  Family 8xy_: both operands are read before the inner switch. In 8xy4 the sum is
  formed in 16 bits; the differences and the left shift are truncated to a byte by the
  parameter type of \<^verbatim>\<open>put_value_in_Vreg\<close>. In this variant VF is written first and
  the destination second.
\<close>

definition op_8xy :: "u16 \<Rightarrow> chip8 \<Rightarrow> chip8" where
  "op_8xy instruction chip =
     (let Vy = get_value_in_Vreg (y_reg_num instruction) chip;
          Vx = get_value_in_Vreg (x_reg_num instruction) chip;
          x = x_reg_num instruction;
          fn = finalNib instruction
      in if fn = 0x0 then put_value_in_Vreg x Vy chip
         else if fn = 0x1 then put_value_in_Vreg x (Vx OR Vy) chip
         else if fn = 0x2 then put_value_in_Vreg x (Vx AND Vy) chip
         else if fn = 0x3 then put_value_in_Vreg x (Vx XOR Vy) chip
         else if fn = 0x4 then
           (let sum = (ucast Vx :: u16) + ucast Vy;
                res = (ucast sum :: u8);
                carry = (if sum > 255 then 1 else 0)
            in put_value_in_Vreg x res (put_value_in_Vreg 0xF carry chip))
         else if fn = 0x5 then
           (let carry = (if Vx > Vy then 1 else 0)
            in put_value_in_Vreg x (Vx - Vy) (put_value_in_Vreg 0xF carry chip))
         else if fn = 0x6 then
           (let lsb = Vx AND 0x1
            in put_value_in_Vreg x (drop_bit 1 Vx) (put_value_in_Vreg 0xF lsb chip))
         else if fn = 0x7 then
           (let carry = (if Vy > Vx then 1 else 0)
            in put_value_in_Vreg x (Vy - Vx) (put_value_in_Vreg 0xF carry chip))
         else if fn = 0xE then
           (let msb = drop_bit 7 Vx
            in put_value_in_Vreg x (push_bit 1 Vx) (put_value_in_Vreg 0xF msb chip))
         else chip)"

text \<open>
  Opcode Dxyn: the row loop. \<open>n\<close> counts the rows left, \<open>y\<close> is the current row and
  \<open>memory_location\<close> a 16-bit address that is incremented after each row.
\<close>

fun loop_Dxyn :: "nat \<Rightarrow> nat \<Rightarrow> nat \<Rightarrow> u16 \<Rightarrow> chip8 \<Rightarrow> chip8 result" where
  "loop_Dxyn 0 x y memory_location chip = Inr chip"
| "loop_Dxyn (Suc n) x y memory_location chip =
     (if unat memory_location \<ge> RAM_SIZE
      then Inl (RamOutOfBounds (unat memory_location), chip)
      else
        let cur_byte = ram chip (unat memory_location);
            drawn = draw_pixel_row x y (screen chip) cur_byte;
            chip1 = chip\<lparr>screen := snd drawn\<rparr>;
            chip2 = (if fst drawn then put_value_in_Vreg 15 1 chip1 else chip1)
        in if y + 1 \<ge> 32 then Inr chip2
           else loop_Dxyn n x (y + 1) (memory_location + 1) chip2)"

definition op_Dxyn :: "u16 \<Rightarrow> chip8 \<Rightarrow> chip8 result" where
  "op_Dxyn instruction chip =
     (let n = unat (instruction AND 0xF);
          x = unat (get_value_in_Vreg (x_reg_num instruction) chip AND 63);
          y = unat (get_value_in_Vreg (y_reg_num instruction) chip AND 31);
          memory_location = I chip
      in loop_Dxyn n x y memory_location (put_value_in_Vreg 15 0x00 chip))"

text \<open>Family Ex__: the key named by Vx is looked up in the key state.\<close>

definition op_Ex :: "key_state \<Rightarrow> u16 \<Rightarrow> chip8 \<Rightarrow> chip8" where
  "op_Ex key_state instruction chip =
     (let Vx = get_value_in_Vreg (x_reg_num instruction) chip;
          keycode = get_keycode_from_u8 Vx
      in if last8 instruction = 0x9E then
           (if key_down key_state keycode then chip\<lparr>pc := pc chip + 2\<rparr> else chip)
         else if last8 instruction = 0xA1 then
           (if \<not> key_down key_state keycode then chip\<lparr>pc := pc chip + 2\<rparr> else chip)
         else chip)"

text \<open>Opcode Fx0A: the chain of tests on the key state, in the source's order.\<close>

definition op_Fx0A :: "key_state \<Rightarrow> nat \<Rightarrow> chip8 \<Rightarrow> chip8" where
  "op_Fx0A key_state x chip =
     (if key_state KEYCODE_1 then put_value_in_Vreg x 1 chip
      else if key_state KEYCODE_2 then put_value_in_Vreg x 2 chip
      else if key_state KEYCODE_3 then put_value_in_Vreg x 3 chip
      else if key_state KEYCODE_Q then put_value_in_Vreg x 4 chip
      else if key_state KEYCODE_W then put_value_in_Vreg x 5 chip
      else if key_state KEYCODE_E then put_value_in_Vreg x 6 chip
      else if key_state KEYCODE_A then put_value_in_Vreg x 7 chip
      else if key_state KEYCODE_S then put_value_in_Vreg x 8 chip
      else if key_state KEYCODE_D then put_value_in_Vreg x 9 chip
      else if key_state KEYCODE_Z then put_value_in_Vreg x 10 chip
      else if key_state KEYCODE_X then put_value_in_Vreg x 0 chip
      else if key_state KEYCODE_C then put_value_in_Vreg x 11 chip
      else if key_state KEYCODE_4 then put_value_in_Vreg x 12 chip
      else if key_state KEYCODE_R then put_value_in_Vreg x 13 chip
      else if key_state KEYCODE_F then put_value_in_Vreg x 14 chip
      else if key_state KEYCODE_V then put_value_in_Vreg x 15 chip
      else chip\<lparr>pc := pc chip - 2\<rparr>)"

text \<open>
  Opcode Fx33: the three digits are written from the last address to the first. The
  addresses \<open>I + 2\<close>, \<open>I + 1\<close> and \<open>I\<close> are computed in \<^verbatim>\<open>int\<close>.
\<close>

definition op_Fx33 :: "u8 \<Rightarrow> chip8 \<Rightarrow> chip8 result" where
  "op_Fx33 Vx chip =
     (let a = unat (I chip) in
      if a + 2 \<ge> RAM_SIZE then Inl (RamOutOfBounds (a + 2), chip)
      else
        let chip1 = chip\<lparr>ram := (ram chip)(a + 2 := Vx mod 10)\<rparr>;
            Vx1 = Vx div 10;
            chip2 = chip1\<lparr>ram := (ram chip1)(a + 1 := Vx1 mod 10)\<rparr>;
            Vx2 = Vx1 div 10
        in Inr (chip2\<lparr>ram := (ram chip2)(a := Vx2 mod 10)\<rparr>))"

text \<open>
  Opcodes Fx55 and Fx65: the loops over \<open>i = 0 .. x\<close>, entered with \<open>i = 0\<close>. The
  address \<open>I + i\<close> is computed in \<^verbatim>\<open>int\<close>.
\<close>

function loop_Fx55 :: "nat \<Rightarrow> nat \<Rightarrow> chip8 \<Rightarrow> chip8 result" where
  "loop_Fx55 i x chip =
     (if i \<le> x then
        (if unat (I chip) + i \<ge> RAM_SIZE then Inl (RamOutOfBounds (unat (I chip) + i), chip)
         else loop_Fx55 (i + 1) x
                (chip\<lparr>ram := (ram chip)(unat (I chip) + i := get_value_in_Vreg i chip)\<rparr>))
      else Inr chip)"
  by pat_completeness auto
termination
  by (relation "measure (\<lambda>(i, x, chip). Suc x - i)") auto

function loop_Fx65 :: "nat \<Rightarrow> nat \<Rightarrow> chip8 \<Rightarrow> chip8 result" where
  "loop_Fx65 i x chip =
     (if i \<le> x then
        (if unat (I chip) + i \<ge> RAM_SIZE then Inl (RamOutOfBounds (unat (I chip) + i), chip)
         else loop_Fx65 (i + 1) x (put_value_in_Vreg i (ram chip (unat (I chip) + i)) chip))
      else Inr chip)"
  by pat_completeness auto
termination
  by (relation "measure (\<lambda>(i, x, chip). Suc x - i)") auto

declare loop_Fx55.simps [simp del] loop_Fx65.simps [simp del]

definition op_Fx :: "key_state \<Rightarrow> u16 \<Rightarrow> chip8 \<Rightarrow> chip8 result" where
  "op_Fx key_state instruction chip =
     (let l8 = last8 instruction;
          x = x_reg_num instruction;
          Vx = get_value_in_Vreg x chip
      in if l8 = 0x07 then Inr (put_value_in_Vreg x (delay_timer chip) chip)
         else if l8 = 0x0A then Inr (op_Fx0A key_state x chip)
         else if l8 = 0x15 then Inr (chip\<lparr>delay_timer := Vx\<rparr>)
         else if l8 = 0x18 then Inr (chip\<lparr>sound_timer := Vx\<rparr>)
         else if l8 = 0x1E then Inr (chip\<lparr>I := I chip + ucast Vx\<rparr>)
         else if l8 = 0x29 then Inr (chip\<lparr>I := 0x050 + ucast Vx * 5\<rparr>)
         else if l8 = 0x33 then op_Fx33 Vx chip
         else if l8 = 0x55 then loop_Fx55 0 x chip
         else if l8 = 0x65 then loop_Fx65 0 x chip
         else Inr chip)"

text \<open>
  \<^verbatim>\<open>perform_instruction\<close> of the later variant. The key state is a global of
  the program and the random byte of Cxkk comes from \<^verbatim>\<open>get_random_num(0, 255)\<close>;
  both are arguments here. The hexadecimal trace that \<^verbatim>\<open>printHex\<close> writes to the
  standard output is not part of the machine and is left out.
\<close>

definition perform_instruction :: "key_state \<Rightarrow> u8 \<Rightarrow> u16 \<Rightarrow> chip8 \<Rightarrow> chip8 result" where
  "perform_instruction key_state random_byte instruction chip =
     (let oc = opcode instruction;
          x = x_reg_num instruction;
          y = y_reg_num instruction
      in if oc = 0x0 then
           (if instruction = 0x00E0 then Inr (chip\<lparr>screen := clear_screen (screen chip)\<rparr>)
            else if instruction = 0x00EE then op_00EE chip
            else Inr chip)
         else if oc = 0x1 then Inr (chip\<lparr>pc := instruction AND 0x0FFF\<rparr>)
         else if oc = 0x2 then Inr (op_2nnn instruction chip)
         else if oc = 0x3 then
           Inr (if kk instruction = get_value_in_Vreg x chip
                then chip\<lparr>pc := pc chip + 2\<rparr> else chip)
         else if oc = 0x4 then
           Inr (if kk instruction \<noteq> get_value_in_Vreg x chip
                then chip\<lparr>pc := pc chip + 2\<rparr> else chip)
         else if oc = 0x5 then
           Inr (if get_value_in_Vreg x chip = get_value_in_Vreg y chip
                then chip\<lparr>pc := pc chip + 2\<rparr> else chip)
         else if oc = 0x6 then Inr (put_value_in_Vreg x (kk instruction) chip)
         else if oc = 0x7 then
           Inr (put_value_in_Vreg x (get_value_in_Vreg x chip + kk instruction) chip)
         else if oc = 0x8 then Inr (op_8xy instruction chip)
         else if oc = 0x9 then
           Inr (if get_value_in_Vreg x chip \<noteq> get_value_in_Vreg y chip
                then chip\<lparr>pc := pc chip + 2\<rparr> else chip)
         else if oc = 0xA then Inr (chip\<lparr>I := instruction AND 0xFFF\<rparr>)
         else if oc = 0xB then
           Inr (chip\<lparr>pc := (instruction AND 0xFFF) + ucast (get_value_in_Vreg 0 chip)\<rparr>)
         else if oc = 0xC then
           Inr (put_value_in_Vreg x (kk instruction AND random_byte) chip)
         else if oc = 0xD then op_Dxyn instruction chip
         else if oc = 0xE then Inr (op_Ex key_state instruction chip)
         else if oc = 0xF then op_Fx key_state instruction chip
         else Inr chip)"

section \<open>Decoder, variant of chip8.cpp\<close>

text \<open>
  Family 8xy_ in \<^verbatim>\<open>chip8.cpp\<close>: the same computations, but 8xy4, 8xy5, 8xy7 and
  8xyE write the destination first and VF second; 8xy6 writes VF first.
\<close>

definition op_8xy_chip8cpp :: "u16 \<Rightarrow> chip8 \<Rightarrow> chip8" where
  "op_8xy_chip8cpp instruction chip =
     (let Vy = get_value_in_Vreg (y_reg_num instruction) chip;
          Vx = get_value_in_Vreg (x_reg_num instruction) chip;
          x = x_reg_num instruction;
          fn = finalNib instruction
      in if fn = 0x0 then put_value_in_Vreg x Vy chip
         else if fn = 0x1 then put_value_in_Vreg x (Vx OR Vy) chip
         else if fn = 0x2 then put_value_in_Vreg x (Vx AND Vy) chip
         else if fn = 0x3 then put_value_in_Vreg x (Vx XOR Vy) chip
         else if fn = 0x4 then
           (let sum = (ucast Vx :: u16) + ucast Vy;
                res = (ucast sum :: u8);
                carry = (if sum > 255 then 1 else 0)
            in put_value_in_Vreg 0xF carry (put_value_in_Vreg x res chip))
         else if fn = 0x5 then
           (let carry = (if Vx > Vy then 1 else 0)
            in put_value_in_Vreg 0xF carry (put_value_in_Vreg x (Vx - Vy) chip))
         else if fn = 0x6 then
           (let lsb = Vx AND 0x1
            in put_value_in_Vreg x (drop_bit 1 Vx) (put_value_in_Vreg 0xF lsb chip))
         else if fn = 0x7 then
           (let carry = (if Vy > Vx then 1 else 0)
            in put_value_in_Vreg 0xF carry (put_value_in_Vreg x (Vy - Vx) chip))
         else if fn = 0xE then
           (let msb = drop_bit 7 Vx
            in put_value_in_Vreg 0xF msb (put_value_in_Vreg x (push_bit 1 Vx) chip))
         else chip)"

text \<open>
  Opcode 2nnn in \<^verbatim>\<open>chip8.cpp\<close>: the stack pointer is incremented before the
  return address is stored.
\<close>

definition op_2nnn_chip8cpp :: "u16 \<Rightarrow> chip8 \<Rightarrow> chip8" where
  "op_2nnn_chip8cpp instruction chip =
     (if sp chip \<ge> 16 - 1 then chip\<lparr>cerr := cerr chip @ [''Stack overflow'']\<rparr>
      else chip\<lparr>sp := sp chip + 1,
                stack := (stack chip)(unat (sp chip + 1) := pc chip),
                pc := instruction AND 0xFFF\<rparr>)"

text \<open>
  \<^verbatim>\<open>perform_instruction\<close> of \<^verbatim>\<open>chip8.cpp\<close>. Case 0 has no
  \<^verbatim>\<open>break\<close> after its inner switch and falls through into case 1, which loads PC
  with the low 12 bits of the instruction. Cases 9, B, C, E and F only print a
  description to the standard output.
\<close>

definition perform_instruction_chip8cpp :: "u16 \<Rightarrow> chip8 \<Rightarrow> chip8 result" where
  "perform_instruction_chip8cpp instruction chip =
     (let oc = opcode instruction;
          x = x_reg_num instruction;
          y = y_reg_num instruction
      in if oc = 0x0 then
           (if instruction = 0x00E0
            then Inr (chip\<lparr>screen := clear_screen (screen chip), pc := instruction AND 0xFFF\<rparr>)
            else if instruction = 0x00EE then
              (case op_00EE chip of
                 Inl e \<Rightarrow> Inl e
               | Inr chip1 \<Rightarrow> Inr (chip1\<lparr>pc := instruction AND 0xFFF\<rparr>))
            else Inr (chip\<lparr>pc := instruction AND 0xFFF\<rparr>))
         else if oc = 0x1 then Inr (chip\<lparr>pc := instruction AND 0xFFF\<rparr>)
         else if oc = 0x2 then Inr (op_2nnn_chip8cpp instruction chip)
         else if oc = 0x3 then
           Inr (if kk instruction = get_value_in_Vreg x chip
                then chip\<lparr>pc := pc chip + 2\<rparr> else chip)
         else if oc = 0x4 then
           Inr (if kk instruction \<noteq> get_value_in_Vreg x chip
                then chip\<lparr>pc := pc chip + 2\<rparr> else chip)
         else if oc = 0x5 then
           Inr (if get_value_in_Vreg x chip = get_value_in_Vreg y chip
                then chip\<lparr>pc := pc chip + 2\<rparr> else chip)
         else if oc = 0x6 then Inr (put_value_in_Vreg x (kk instruction) chip)
         else if oc = 0x7 then
           Inr (put_value_in_Vreg x (get_value_in_Vreg x chip + kk instruction) chip)
         else if oc = 0x8 then Inr (op_8xy_chip8cpp instruction chip)
         else if oc = 0xA then Inr (chip\<lparr>I := instruction AND 0xFFF\<rparr>)
         else if oc = 0xD then op_Dxyn instruction chip
         else Inr chip)"

section \<open>ROM loader\<close>

text \<open>
  What the file system gives \<^verbatim>\<open>load_rom\<close> for the file name: a file that cannot
  be opened, a file whose read fails, or the bytes of the file.
\<close>

datatype rom_file = CannotOpen | ReadFails | RomBytes "u8 list"

text \<open>
  The copy loop of \<^verbatim>\<open>load_rom\<close>: byte \<open>i\<close> of the buffer goes to
  \<open>ram[ROM_START + i]\<close>, for \<open>i\<close> from 0 up to the size of the file. The loop has no
  test on the size; the index is checked here because a write past the array has no
  meaning in C++.
\<close>

function loop_load_rom :: "nat \<Rightarrow> u8 list \<Rightarrow> chip8 \<Rightarrow> chip8 result" where
  "loop_load_rom i buffer chip =
     (if i < length buffer then
        (if ROM_START + i \<ge> RAM_SIZE then Inl (RamOutOfBounds (ROM_START + i), chip)
         else loop_load_rom (i + 1) buffer
                (chip\<lparr>ram := (ram chip)(ROM_START + i := buffer ! i)\<rparr>))
      else Inr chip)"
  by pat_completeness auto
termination
  by (relation "measure (\<lambda>(i, buffer, chip). length buffer - i)") auto

declare loop_load_rom.simps [simp del]

text \<open>
  \<^verbatim>\<open>load_rom\<close>. Its two error paths write one line to the standard error stream
  and return with the machine untouched; both concern the file, none the size.
\<close>

definition load_rom :: "string \<Rightarrow> rom_file \<Rightarrow> chip8 \<Rightarrow> chip8 result" where
  "load_rom fileName romFile chip =
     (case romFile of
        CannotOpen \<Rightarrow>
          Inr (chip\<lparr>cerr := cerr chip @ [''Error: could not open ROM file '' @ fileName]\<rparr>)
      | ReadFails \<Rightarrow>
          Inr (chip\<lparr>cerr := cerr chip @ [''Error: failed to read the entire ROM file'']\<rparr>)
      | RomBytes buffer \<Rightarrow> loop_load_rom 0 buffer chip)"

section \<open>Running\<close>

text \<open>
  One instruction tick of \<^verbatim>\<open>run\<close>: \<^verbatim>\<open>fetch_instruction\<close>, then
  \<^verbatim>\<open>perform_instruction\<close> on the word fetched.
\<close>

definition cycle :: "key_state \<Rightarrow> u8 \<Rightarrow> chip8 \<Rightarrow> chip8 result" where
  "cycle key_state random_byte chip =
     (case fetch_instruction chip of
        Inl e \<Rightarrow> Inl e
      | Inr (instruction, chip1) \<Rightarrow> perform_instruction key_state random_byte instruction chip1)"

text \<open>A list of instruction words performed one after the other.\<close>

fun perform_all :: "key_state \<Rightarrow> u8 \<Rightarrow> u16 list \<Rightarrow> chip8 \<Rightarrow> chip8 result" where
  "perform_all key_state random_byte [] chip = Inr chip"
| "perform_all key_state random_byte (instruction # rest) chip =
     (case perform_instruction key_state random_byte instruction chip of
        Inl e \<Rightarrow> Inl e
      | Inr chip1 \<Rightarrow> perform_all key_state random_byte rest chip1)"

text \<open>
  The address an instruction is about to load into PC is even: the target of 1nnn, of a
  2nnn that is not dropped, and of Bnnn. All other instructions satisfy the test.
\<close>

definition loads_even :: "u16 \<Rightarrow> chip8 \<Rightarrow> bool" where
  "loads_even instruction chip =
     (let oc = opcode instruction in
      if oc = 0x1 then even (instruction AND 0xFFF)
      else if oc = 0x2 then sp chip \<ge> 15 \<or> even (instruction AND 0xFFF)
      else if oc = 0xB then even ((instruction AND 0xFFF) + ucast (get_value_in_Vreg 0 chip))
      else True)"

text \<open>
  A run of instruction ticks. The key state and the random byte can differ from tick to
  tick, so the run takes one pair of them per tick; it stops at the first access outside
  an array.
\<close>

fun run_cycles :: "(key_state \<times> u8) list \<Rightarrow> chip8 \<Rightarrow> chip8 result" where
  "run_cycles [] chip = Inr chip"
| "run_cycles (input # rest) chip =
     (case cycle (fst input) (snd input) chip of
        Inl e \<Rightarrow> Inl e
      | Inr chip1 \<Rightarrow> run_cycles rest chip1)"

text \<open>Every instruction fetched along the run loads only even addresses into PC.\<close>

fun even_targets :: "(key_state \<times> u8) list \<Rightarrow> chip8 \<Rightarrow> bool" where
  "even_targets [] chip = True"
| "even_targets (input # rest) chip =
     (case fetch_instruction chip of
        Inl e \<Rightarrow> True
      | Inr (instruction, chip1) \<Rightarrow>
          loads_even instruction chip1 \<and>
          (case perform_instruction (fst input) (snd input) instruction chip1 of
             Inl e \<Rightarrow> True
           | Inr chip2 \<Rightarrow> even_targets rest chip2))"

text \<open>The return addresses on the stack, below the stack pointer, are all even.\<close>

definition stack_even :: "chip8 \<Rightarrow> bool" where
  "stack_even chip = (\<forall>i \<in> {0 ..< unat (sp chip)}. even (stack chip i))"

text \<open>The invariant of such runs: PC is even and so are the stacked return addresses.\<close>

definition even_pc_inv :: "chip8 \<Rightarrow> bool" where
  "even_pc_inv chip = (even (pc chip) \<and> stack_even chip)"

section \<open>Wait for key, as the specification words it\<close>

text \<open>
  The sixteen logical keys in the priority order of the specification, by hex value, and
  the first of them that is held down: the host key standing for hex value \<open>h\<close> is
  \<open>get_keycode_from_u8 h\<close>.
\<close>

definition key_priority :: "u8 list" where
  "key_priority = [0x1, 0x2, 0x3, 0x4, 0x5, 0x6, 0x7, 0x8, 0x9, 0xA, 0x0, 0xB, 0xC, 0xD, 0xE, 0xF]"

definition first_pressed :: "key_state \<Rightarrow> u8 option" where
  "first_pressed key_state =
     find (\<lambda>h. key_down key_state (get_keycode_from_u8 h)) key_priority"

section \<open>Sprite drawing, as the specification words it\<close>







section \<open>A concrete machine for the examples\<close>

text \<open>
  Every cell zero, no key message written, and the program counter at the start of
  program memory.
\<close>

definition blank_chip :: chip8 where
  "blank_chip =
     \<lparr>v = (\<lambda>r. 0), I = 0, pc = 0x200, sp = 0, delay_timer = 0, sound_timer = 0,
      ram = (\<lambda>a. 0), stack = (\<lambda>i. 0), screen = (\<lambda>x y. False), cerr = []\<rparr>"

definition no_keys :: key_state where
  "no_keys = (\<lambda>k. False)"

text \<open>Registers VF = 5 and V3 = 3, for the instructions of family 8xy_ with x = F, y = 3.\<close>

definition flag_chip :: chip8 where
  "flag_chip = blank_chip\<lparr>v := (\<lambda>r. 0)(15 := 5, 3 := 3)\<rparr>"

text \<open>
  A two-instruction program: \<^verbatim>\<open>2300\<close> (call 0x300) at 0x200 and \<^verbatim>\<open>00EE\<close>
  (return) at 0x300.
\<close>

definition call_chip :: chip8 where
  "call_chip = blank_chip\<lparr>ram := (\<lambda>a. 0)(0x200 := 0x23, 0x300 := 0x00, 0x301 := 0xEE)\<rparr>"

text \<open>Registers V0 to V2 loaded and the index register at 0x400.\<close>

definition regs_chip :: chip8 where
  "regs_chip = blank_chip\<lparr>v := (\<lambda>r. 0)(0 := 0x11, 1 := 0x22, 2 := 0x33), I := 0x400\<rparr>"

text \<open>
  Two one-instruction programs at 0x200: \<^verbatim>\<open>1203\<close>, a jump to the odd address
  0x203, and \<^verbatim>\<open>1204\<close>, a jump to the even address 0x204.
\<close>

definition odd_jump_chip :: chip8 where
  "odd_jump_chip = blank_chip\<lparr>ram := (\<lambda>a. 0)(0x200 := 0x12, 0x201 := 0x03)\<rparr>"

definition even_jump_chip :: chip8 where
  "even_jump_chip = blank_chip\<lparr>ram := (\<lambda>a. 0)(0x200 := 0x12, 0x201 := 0x04)\<rparr>"


section \<open>The arithmetic flags, as the specification words them\<close>

text \<open>
  The flag of 8xy4, 8xy5 and 8xy7 computed from the operand values before the
  instruction: the carry of the widened sum, \<open>Vx > Vy\<close>, and \<open>Vy > Vx\<close>.
\<close>

definition spec_flag :: "u8 \<Rightarrow> u8 \<Rightarrow> u8 \<Rightarrow> u8" where
  "spec_flag fn Vx Vy =
     (if fn = 0x4 then (if unat Vx + unat Vy > 255 then 1 else 0)
      else if fn = 0x5 then (if Vx > Vy then 1 else 0)
      else if fn = 0x7 then (if Vy > Vx then 1 else 0)
      else 0)"

section \<open>Auxiliary facts\<close>

lemma x_reg_num_less: "x_reg_num instruction < 16"
proof -
  have "drop_bit 8 instruction AND 0xF \<le> (0xF :: u16)" by (rule word_and_le1)
  then show ?thesis by (simp add: x_reg_num_def word_le_nat_alt)
qed

lemma put_value_in_Vreg_swap:
  "x \<noteq> 15 \<Longrightarrow>
   put_value_in_Vreg x a (put_value_in_Vreg 15 b chip)
     = put_value_in_Vreg 15 b (put_value_in_Vreg x a chip)"
  by (simp add: put_value_in_Vreg_def fun_upd_twist)

lemma op_8xy_agree:
  "x_reg_num instruction \<noteq> 15 \<Longrightarrow> op_8xy instruction chip = op_8xy_chip8cpp instruction chip"
  by (simp add: op_8xy_def op_8xy_chip8cpp_def Let_def put_value_in_Vreg_swap)

lemma carry_u16: "((ucast (a::u8) :: u16) + ucast (b::u8) > 255) = (unat a + unat b > 255)"
proof -
  have "unat a < 256" "unat b < 256" using unsigned_less[of a] unsigned_less[of b] by simp_all
  moreover have "unat (ucast a :: u16) = unat a" "unat (ucast b :: u16) = unat b"
    by (simp_all add: unsigned_ucast_eq take_bit_nat_eq_self_iff unsigned_less[THEN less_trans])
  ultimately have "unat ((ucast a :: u16) + ucast b) = unat a + unat b"
    by (simp add: unat_word_ariths)
  then show ?thesis by (simp add: word_less_nat_alt)
qed

lemma minus_two_u8: "(- 2 :: u8) = 254" by simp

lemma fetch_instruction_Inr:
  "fetch_instruction chip = Inr (instruction, chip1) \<Longrightarrow> chip1 = chip\<lparr>pc := pc chip + 2\<rparr>"
  by (auto simp: fetch_instruction_def Let_def split: if_splits)

lemma perform_2nnn:
  "opcode instruction = 2 \<Longrightarrow>
   perform_instruction key_state random_byte instruction chip = Inr (op_2nnn instruction chip)"
  by (simp add: perform_instruction_def)

lemma perform_00EE:
  "perform_instruction key_state random_byte 0x00EE chip = op_00EE chip"
  by (simp add: perform_instruction_def opcode_def)

lemma sp_below_15: "s < (15::u8) \<Longrightarrow> \<not> s \<ge> 15 \<and> s + 1 - 1 = s \<and> unat s < 16 \<and> unat (s + 1) = unat s + 1"
  by (simp add: word_less_nat_alt word_le_nat_alt unat_word_ariths)

lemma perform_all_calls:
  "\<forall>c \<in> set cs. opcode c = 2 \<Longrightarrow> unat (sp chip) + length cs \<le> 15 \<Longrightarrow>
   \<exists>chip'. perform_all key_state random_byte cs chip = Inr chip'
      \<and> unat (sp chip') = unat (sp chip) + length cs \<and> cerr chip' = cerr chip"
proof (induction cs arbitrary: chip)
  case Nil
  then show ?case by simp
next
  case (Cons c cs)
  from Cons.prems have lt: "sp chip < 15" by (simp add: word_less_nat_alt)
  let ?chip1 = "op_2nnn c chip"
  have p: "perform_instruction key_state random_byte c chip = Inr ?chip1"
    using Cons.prems(1) by (simp add: perform_2nnn)
  have s1: "unat (sp ?chip1) = unat (sp chip) + 1" "cerr ?chip1 = cerr chip"
    using sp_below_15 [OF lt] by (simp_all add: op_2nnn_def)
  from Cons.prems s1 have "unat (sp ?chip1) + length cs \<le> 15" by simp
  with Cons.IH [of ?chip1] Cons.prems(1) obtain chip' where
    "perform_all key_state random_byte cs ?chip1 = Inr chip'"
    "unat (sp chip') = unat (sp ?chip1) + length cs" "cerr chip' = cerr ?chip1"
    by auto
  with p s1 show ?case by simp
qed

lemma first_pressed_chain:
  "first_pressed key_state =
     (if key_state KEYCODE_1 then Some 1
      else if key_state KEYCODE_2 then Some 2
      else if key_state KEYCODE_3 then Some 3
      else if key_state KEYCODE_Q then Some 4
      else if key_state KEYCODE_W then Some 5
      else if key_state KEYCODE_E then Some 6
      else if key_state KEYCODE_A then Some 7
      else if key_state KEYCODE_S then Some 8
      else if key_state KEYCODE_D then Some 9
      else if key_state KEYCODE_Z then Some 10
      else if key_state KEYCODE_X then Some 0
      else if key_state KEYCODE_C then Some 11
      else if key_state KEYCODE_4 then Some 12
      else if key_state KEYCODE_R then Some 13
      else if key_state KEYCODE_F then Some 14
      else if key_state KEYCODE_V then Some 15
      else None)"
  by (simp add: first_pressed_def key_priority_def get_keycode_from_u8_def key_down_def)



lemma loop_load_rom_fits:
  "ROM_START + length buffer \<le> RAM_SIZE \<Longrightarrow>
   loop_load_rom i buffer chip =
     Inr (chip\<lparr>ram := (\<lambda>a. if ROM_START + i \<le> a \<and> a < ROM_START + length buffer
                           then buffer ! (a - ROM_START) else ram chip a)\<rparr>)"
proof (induction i buffer chip rule: loop_load_rom.induct)
  case (1 i buffer chip)
  show ?case
  proof (cases "i < length buffer")
    case False
    then have "(\<lambda>a. if ROM_START + i \<le> a \<and> a < ROM_START + length buffer
                   then buffer ! (a - ROM_START) else ram chip a) = ram chip"
      by (auto simp: fun_eq_iff)
    with False show ?thesis by (subst loop_load_rom.simps) simp
  next
    case True
    let ?chip1 = "chip\<lparr>ram := (ram chip)(ROM_START + i := buffer ! i)\<rparr>"
    from True "1.prems" have inb: "\<not> ROM_START + i \<ge> RAM_SIZE" by simp
    have "(\<lambda>a. if ROM_START + (i + 1) \<le> a \<and> a < ROM_START + length buffer
               then buffer ! (a - ROM_START) else ram ?chip1 a)
        = (\<lambda>a. if ROM_START + i \<le> a \<and> a < ROM_START + length buffer
               then buffer ! (a - ROM_START) else ram chip a)"
      using True by (auto simp: fun_eq_iff)
    with "1.IH" [OF True inb "1.prems"]
    have "loop_load_rom (i + 1) buffer ?chip1 =
        Inr (chip\<lparr>ram := (\<lambda>a. if ROM_START + i \<le> a \<and> a < ROM_START + length buffer
                           then buffer ! (a - ROM_START) else ram chip a)\<rparr>)"
      by simp
    with True inb show ?thesis by (subst loop_load_rom.simps) simp
  qed
qed

lemma loop_load_rom_overflow:
  "ROM_START + length buffer > RAM_SIZE \<Longrightarrow> ROM_START + i \<le> RAM_SIZE \<Longrightarrow>
   loop_load_rom i buffer chip =
     Inl (RamOutOfBounds RAM_SIZE,
          chip\<lparr>ram := (\<lambda>a. if ROM_START + i \<le> a \<and> a < RAM_SIZE
                           then buffer ! (a - ROM_START) else ram chip a)\<rparr>)"
proof (induction i buffer chip rule: loop_load_rom.induct)
  case (1 i buffer chip)
  from "1.prems" have lt: "i < length buffer" by simp
  show ?case
  proof (cases "ROM_START + i \<ge> RAM_SIZE")
    case True
    with "1.prems" have e: "ROM_START + i = RAM_SIZE" by simp
    then have "(\<lambda>a. if ROM_START + i \<le> a \<and> a < RAM_SIZE
                   then buffer ! (a - ROM_START) else ram chip a) = ram chip"
      by (auto simp: fun_eq_iff)
    with lt True e show ?thesis by (subst loop_load_rom.simps) simp
  next
    case False
    let ?chip1 = "chip\<lparr>ram := (ram chip)(ROM_START + i := buffer ! i)\<rparr>"
    from False have nxt: "ROM_START + (i + 1) \<le> RAM_SIZE" by simp
    have "(\<lambda>a. if ROM_START + (i + 1) \<le> a \<and> a < RAM_SIZE
               then buffer ! (a - ROM_START) else ram ?chip1 a)
        = (\<lambda>a. if ROM_START + i \<le> a \<and> a < RAM_SIZE
               then buffer ! (a - ROM_START) else ram chip a)"
      using False by (auto simp: fun_eq_iff)
    with "1.IH" [OF lt False "1.prems"(1) nxt]
    have "loop_load_rom (i + 1) buffer ?chip1 =
        Inl (RamOutOfBounds RAM_SIZE,
          chip\<lparr>ram := (\<lambda>a. if ROM_START + i \<le> a \<and> a < RAM_SIZE
                           then buffer ! (a - ROM_START) else ram chip a)\<rparr>)"
      by simp
    with lt False show ?thesis by (subst loop_load_rom.simps) simp
  qed
qed

lemma put_value_in_Vreg_frame [simp]:
  "pc (put_value_in_Vreg r x chip) = pc chip"
  "sp (put_value_in_Vreg r x chip) = sp chip"
  "stack (put_value_in_Vreg r x chip) = stack chip"
  by (simp_all add: put_value_in_Vreg_def)

lemma loop_Dxyn_frame:
  "loop_Dxyn n x y memory_location chip = Inr chip' \<Longrightarrow>
   pc chip' = pc chip \<and> sp chip' = sp chip \<and> stack chip' = stack chip"
proof (induction n arbitrary: y memory_location chip)
  case 0
  then show ?case by simp
next
  case (Suc n)
  show ?case
  proof (cases "unat memory_location \<ge> RAM_SIZE")
    case True
    with Suc.prems show ?thesis by simp
  next
    case False
    let ?drawn = "draw_pixel_row x y (screen chip) (ram chip (unat memory_location))"
    let ?chip1 = "chip\<lparr>screen := snd ?drawn\<rparr>"
    let ?chip2 = "if fst ?drawn then put_value_in_Vreg 15 1 ?chip1 else ?chip1"
    have f2: "pc ?chip2 = pc chip \<and> sp ?chip2 = sp chip \<and> stack ?chip2 = stack chip"
      by simp
    show ?thesis
    proof (cases "y + 1 \<ge> 32")
      case True
      with False Suc.prems have "chip' = ?chip2" by (simp add: Let_def)
      with f2 show ?thesis by simp
    next
      case y: False
      with False Suc.prems have "loop_Dxyn n x (y + 1) (memory_location + 1) ?chip2 = Inr chip'"
        by (simp add: Let_def)
      from Suc.IH [OF this] f2 show ?thesis by simp
    qed
  qed
qed

lemma loop_Fx55_frame:
  "loop_Fx55 i x chip = Inr chip' \<Longrightarrow>
   pc chip' = pc chip \<and> sp chip' = sp chip \<and> stack chip' = stack chip"
proof (induction i x chip rule: loop_Fx55.induct)
  case (1 i x chip)
  show ?case
  proof (cases "i \<le> x \<and> \<not> unat (I chip) + i \<ge> RAM_SIZE")
    case True
    with "1.prems" have "loop_Fx55 (i + 1) x
        (chip\<lparr>ram := (ram chip)(unat (I chip) + i := get_value_in_Vreg i chip)\<rparr>) = Inr chip'"
      by (subst (asm) loop_Fx55.simps) simp
    with "1.IH" True show ?thesis by simp
  next
    case False
    with "1.prems" show ?thesis by (subst (asm) loop_Fx55.simps) (auto split: if_splits)
  qed
qed

lemma loop_Fx65_frame:
  "loop_Fx65 i x chip = Inr chip' \<Longrightarrow>
   pc chip' = pc chip \<and> sp chip' = sp chip \<and> stack chip' = stack chip"
proof (induction i x chip rule: loop_Fx65.induct)
  case (1 i x chip)
  show ?case
  proof (cases "i \<le> x \<and> \<not> unat (I chip) + i \<ge> RAM_SIZE")
    case True
    with "1.prems" have "loop_Fx65 (i + 1) x
        (put_value_in_Vreg i (ram chip (unat (I chip) + i)) chip) = Inr chip'"
      by (subst (asm) loop_Fx65.simps) simp
    with "1.IH" True show ?thesis by simp
  next
    case False
    with "1.prems" show ?thesis by (subst (asm) loop_Fx65.simps) (auto split: if_splits)
  qed
qed

lemma op_8xy_frame:
  "pc (op_8xy instruction chip) = pc chip \<and> sp (op_8xy instruction chip) = sp chip
   \<and> stack (op_8xy instruction chip) = stack chip"
  by (simp add: op_8xy_def Let_def)

lemma op_Ex_inv:
  "even_pc_inv chip \<Longrightarrow> even_pc_inv (op_Ex key_state instruction chip)"
  by (simp add: op_Ex_def Let_def even_pc_inv_def stack_even_def)

lemma op_Fx0A_first_pressed:
  "op_Fx0A key_state x chip =
     (case first_pressed key_state of
        Some h \<Rightarrow> put_value_in_Vreg x h chip
      | None \<Rightarrow> chip\<lparr>pc := pc chip - 2\<rparr>)"
  by (simp add: first_pressed_chain op_Fx0A_def)

lemma op_Fx0A_inv:
  "even_pc_inv chip \<Longrightarrow> even_pc_inv (op_Fx0A key_state x chip)"
  by (cases "first_pressed key_state")
     (simp_all add: op_Fx0A_first_pressed even_pc_inv_def stack_even_def)

lemma op_Fx_inv:
  assumes "even_pc_inv chip" and "op_Fx key_state instruction chip = Inr chip'"
  shows "even_pc_inv chip'"
proof -
  consider (key) "last8 instruction = 0x0A"
    | (bcd) "last8 instruction = 0x33"
    | (store) "last8 instruction = 0x55"
    | (load) "last8 instruction = 0x65"
    | (other) "last8 instruction \<notin> {0x0A, 0x33, 0x55, 0x65}"
    by blast
  then show ?thesis
  proof cases
    case key
    with assms(2) have "chip' = op_Fx0A key_state (x_reg_num instruction) chip"
      by (simp add: op_Fx_def)
    with assms(1) show ?thesis by (simp add: op_Fx0A_inv)
  next
    case bcd
    with assms(2) have "pc chip' = pc chip \<and> sp chip' = sp chip \<and> stack chip' = stack chip"
      by (auto simp: op_Fx_def op_Fx33_def Let_def split: if_splits)
    with assms(1) show ?thesis by (simp add: even_pc_inv_def stack_even_def)
  next
    case store
    with assms(2) have "loop_Fx55 0 (x_reg_num instruction) chip = Inr chip'"
      by (simp add: op_Fx_def)
    from loop_Fx55_frame [OF this] assms(1) show ?thesis
      by (simp add: even_pc_inv_def stack_even_def)
  next
    case load
    with assms(2) have "loop_Fx65 0 (x_reg_num instruction) chip = Inr chip'"
      by (simp add: op_Fx_def)
    from loop_Fx65_frame [OF this] assms(1) show ?thesis
      by (simp add: even_pc_inv_def stack_even_def)
  next
    case other
    with assms(2) have "pc chip' = pc chip \<and> sp chip' = sp chip \<and> stack chip' = stack chip"
      by (auto simp: op_Fx_def Let_def split: if_splits)
    with assms(1) show ?thesis by (simp add: even_pc_inv_def stack_even_def)
  qed
qed

lemma op_00EE_inv:
  assumes "even_pc_inv chip" and "op_00EE chip = Inr chip'"
  shows "even_pc_inv chip'"
proof -
  from assms(2) have lt: "unat (sp chip - 1) < STACK_SIZE"
    and c: "chip' = chip\<lparr>sp := sp chip - 1, pc := stack chip (unat (sp chip - 1))\<rparr>"
    by (auto simp: op_00EE_def Let_def split: if_splits)
  have nz: "sp chip \<noteq> 0"
  proof
    assume "sp chip = 0"
    with lt show False
      by (simp add: STACK_SIZE_def unsigned_minus_1_eq_mask mask_eq_exp_minus_1)
  qed
  then have u: "unat (sp chip - 1) = unat (sp chip) - 1" "unat (sp chip) \<ge> 1"
    by (simp_all add: unat_minus_one unat_gt_0 Suc_leI word_neq_0_conv)
  with assms(1) have "even (stack chip (unat (sp chip - 1)))"
    by (simp add: even_pc_inv_def stack_even_def)
  moreover from assms(1) u have "\<forall>i < unat (sp chip - 1). even (stack chip i)"
    by (simp add: even_pc_inv_def stack_even_def)
  ultimately show ?thesis by (simp add: c even_pc_inv_def stack_even_def)
qed

lemma op_2nnn_inv:
  assumes "even_pc_inv chip" and "sp chip \<ge> 15 \<or> even (instruction AND 0xFFF)"
  shows "even_pc_inv (op_2nnn instruction chip)"
proof (cases "sp chip \<ge> 15")
  case True
  with assms(1) show ?thesis by (simp add: op_2nnn_def even_pc_inv_def stack_even_def)
next
  case False
  then have "sp chip < 15" by simp
  from sp_below_15 [OF this] assms show ?thesis
    by (auto simp: op_2nnn_def even_pc_inv_def stack_even_def less_Suc_eq)
qed

lemma perform_instruction_inv:
  assumes inv: "even_pc_inv chip" and le: "loads_even instruction chip"
    and p: "perform_instruction key_state random_byte instruction chip = Inr chip'"
  shows "even_pc_inv chip'"
proof -
  consider (ret) "opcode instruction = 0x0"
    | (jump) "opcode instruction = 0x1"
    | (call) "opcode instruction = 0x2"
    | (alu) "opcode instruction = 0x8"
    | (jumpv) "opcode instruction = 0xB"
    | (draw) "opcode instruction = 0xD"
    | (keys) "opcode instruction = 0xE"
    | (misc) "opcode instruction = 0xF"
    | (other) "opcode instruction \<notin> {0x0, 0x1, 0x2, 0x8, 0xB, 0xD, 0xE, 0xF}"
    by blast
  then show ?thesis
  proof cases
    case ret
    show ?thesis
    proof (cases "instruction = 0x00EE")
      case True
      with p have "op_00EE chip = Inr chip'" by (simp add: perform_00EE)
      with inv show ?thesis by (rule op_00EE_inv)
    next
      case False
      with ret p have "pc chip' = pc chip \<and> sp chip' = sp chip \<and> stack chip' = stack chip"
        by (auto simp: perform_instruction_def split: if_splits)
      with inv show ?thesis by (simp add: even_pc_inv_def stack_even_def)
    qed
  next
    case jump
    with p have "chip' = chip\<lparr>pc := instruction AND 0x0FFF\<rparr>"
      by (simp add: perform_instruction_def)
    with inv le jump show ?thesis by (simp add: even_pc_inv_def stack_even_def loads_even_def)
  next
    case call
    with p have "chip' = op_2nnn instruction chip" by (simp add: perform_2nnn)
    with inv le call show ?thesis by (simp add: op_2nnn_inv loads_even_def)
  next
    case alu
    with p have "chip' = op_8xy instruction chip" by (simp add: perform_instruction_def)
    with inv op_8xy_frame [of instruction chip] show ?thesis
      by (simp add: even_pc_inv_def stack_even_def)
  next
    case jumpv
    with p have "chip' = chip\<lparr>pc := (instruction AND 0xFFF) + ucast (get_value_in_Vreg 0 chip)\<rparr>"
      by (simp add: perform_instruction_def)
    with inv le jumpv show ?thesis by (simp add: even_pc_inv_def stack_even_def loads_even_def)
  next
    case draw
    with p have "loop_Dxyn (unat (instruction AND 0xF))
        (unat (get_value_in_Vreg (x_reg_num instruction) chip AND 63))
        (unat (get_value_in_Vreg (y_reg_num instruction) chip AND 31))
        (I chip) (put_value_in_Vreg 15 0x00 chip) = Inr chip'"
      by (simp add: perform_instruction_def op_Dxyn_def Let_def)
    from loop_Dxyn_frame [OF this] inv show ?thesis
      by (simp add: even_pc_inv_def stack_even_def)
  next
    case keys
    with p have "chip' = op_Ex key_state instruction chip" by (simp add: perform_instruction_def)
    with inv show ?thesis by (simp add: op_Ex_inv)
  next
    case misc
    with p have "op_Fx key_state instruction chip = Inr chip'" by (simp add: perform_instruction_def)
    with inv show ?thesis by (rule op_Fx_inv)
  next
    case other
    with p have "(pc chip' = pc chip \<or> pc chip' = pc chip + 2) \<and> sp chip' = sp chip \<and> stack chip' = stack chip"
      by (auto simp: perform_instruction_def Let_def split: if_splits)
    with inv show ?thesis by (auto simp: even_pc_inv_def stack_even_def)
  qed
qed

lemma fetch_instruction_inv:
  "even_pc_inv chip \<Longrightarrow> fetch_instruction chip = Inr (instruction, chip1) \<Longrightarrow> even_pc_inv chip1"
  by (drule fetch_instruction_Inr) (simp add: even_pc_inv_def stack_even_def)

lemma run_cycles_inv:
  "even_pc_inv chip0 \<Longrightarrow> even_targets inputs chip0 \<Longrightarrow> run_cycles inputs chip0 = Inr chip \<Longrightarrow>
   even_pc_inv chip"
proof (induction inputs arbitrary: chip0)
  case Nil
  then show ?case by simp
next
  case (Cons input rest)
  from Cons.prems(3) obtain instruction chip1 chip2 where
    f: "fetch_instruction chip0 = Inr (instruction, chip1)"
    and p: "perform_instruction (fst input) (snd input) instruction chip1 = Inr chip2"
    and r: "run_cycles rest chip2 = Inr chip"
    by (auto simp: cycle_def split: sum.splits)
  from Cons.prems(2) f p have le: "loads_even instruction chip1" and et: "even_targets rest chip2"
    by simp_all
  from Cons.prems(1) f have "even_pc_inv chip1" by (rule fetch_instruction_inv)
  from this le p have "even_pc_inv chip2" by (rule perform_instruction_inv)
  from this et r show ?case by (rule Cons.IH)
qed

lemma fetch_even_jump_chip:
  "fetch_instruction even_jump_chip = Inr (0x1204, even_jump_chip\<lparr>pc := 0x202\<rparr>)"
  "fetch_instruction (even_jump_chip\<lparr>pc := 0x204\<rparr>) = Inr (0, even_jump_chip\<lparr>pc := 0x206\<rparr>)"
  by (simp_all add: fetch_instruction_def even_jump_chip_def blank_chip_def RAM_SIZE_def Let_def)

lemma run_even_jump_chip:
  "run_cycles [(no_keys, 0)] even_jump_chip = Inr (even_jump_chip\<lparr>pc := 0x204\<rparr>)"
  "even_targets [(no_keys, 0)] even_jump_chip"
  by (simp_all add: cycle_def fetch_even_jump_chip perform_instruction_def loads_even_def
      opcode_def)












lemma Fx0A_fields:
  assumes "x < 16"
  shows "opcode (0xF00A + 0x100 * of_nat x) = 0xF
       \<and> last8 (0xF00A + 0x100 * of_nat x) = 0x0A
       \<and> x_reg_num (0xF00A + 0x100 * of_nat x) = x"
proof -
  from assms consider "x = 0" | "x = 1" | "x = 2" | "x = 3" | "x = 4" | "x = 5" | "x = 6"
    | "x = 7" | "x = 8" | "x = 9" | "x = 10" | "x = 11" | "x = 12" | "x = 13" | "x = 14"
    | "x = 15"
    by atomize_elim arith
  then show ?thesis
    by cases (simp_all add: opcode_def last8_def x_reg_num_def)
qed

lemma op_8xy_agree_6:
  "finalNib instruction = 0x6 \<Longrightarrow> op_8xy instruction chip = op_8xy_chip8cpp instruction chip"
  by (simp add: op_8xy_def op_8xy_chip8cpp_def Let_def)

lemmas eval_8xy = perform_instruction_def opcode_def op_8xy_def finalNib_def x_reg_num_def
  y_reg_num_def get_value_in_Vreg_def put_value_in_Vreg_def flag_chip_def blank_chip_def Let_def

lemmas eval_8xy_chip8cpp = perform_instruction_chip8cpp_def opcode_def op_8xy_chip8cpp_def
  finalNib_def x_reg_num_def y_reg_num_def get_value_in_Vreg_def put_value_in_Vreg_def
  flag_chip_def blank_chip_def Let_def

lemma flag_chip_updates_differ:
  "a \<noteq> b \<Longrightarrow> (Inr (flag_chip\<lparr>v := (v flag_chip)(15 := a)\<rparr>) :: chip8 result)
     \<noteq> Inr (flag_chip\<lparr>v := (v flag_chip)(15 := b)\<rparr>)"
proof
  assume ne: "a \<noteq> b"
    and "(Inr (flag_chip\<lparr>v := (v flag_chip)(15 := a)\<rparr>) :: chip8 result)
       = Inr (flag_chip\<lparr>v := (v flag_chip)(15 := b)\<rparr>)"
  then have "v (flag_chip\<lparr>v := (v flag_chip)(15 := a)\<rparr>) 15
           = v (flag_chip\<lparr>v := (v flag_chip)(15 := b)\<rparr>) 15"
    by simp
  with ne show False by simp
qed

section \<open>Return from subroutine\<close>

text \<open>
  C10. Opcode 00EE has no empty-stack guard. With SP = 0 the decrement wraps the
  unsigned stack pointer to 255 and the stack is then read at index 255, outside its 16
  entries. With SP at least 1 (and within the register's range, below 16) the decremented
  pointer is a valid index and the instruction completes, loading PC from that entry.
\<close>

theorem return_needs_nonempty_stack:
  "(sp chip = 0 \<longrightarrow>
      perform_instruction key_state random_byte 0x00EE chip
        = Inl (StackOutOfBounds 255, chip\<lparr>sp := 255\<rparr>)
      \<and> \<not> (255 < STACK_SIZE))
   \<and> (1 \<le> sp chip \<and> sp chip < 16 \<longrightarrow>
      unat (sp chip - 1) < STACK_SIZE
      \<and> perform_instruction key_state random_byte 0x00EE chip
        = Inr (chip\<lparr>sp := sp chip - 1, pc := stack chip (unat (sp chip - 1))\<rparr>))"
proof (intro conjI impI)
  assume "sp chip = 0"
  then show "perform_instruction key_state random_byte 0x00EE chip
        = Inl (StackOutOfBounds 255, chip\<lparr>sp := 255\<rparr>)"
    by (simp add: perform_instruction_def opcode_def op_00EE_def STACK_SIZE_def
        unsigned_minus_1_eq_mask mask_eq_exp_minus_1)
next
  show "\<not> (255 < STACK_SIZE)" by (simp add: STACK_SIZE_def)
next
  assume r: "1 \<le> sp chip \<and> sp chip < 16"
  then have "unat (sp chip) \<ge> 1" "unat (sp chip) < 16"
    by (simp_all add: word_le_nat_alt word_less_nat_alt)
  then have "unat (sp chip - 1) = unat (sp chip) - 1"
    by (simp add: unat_sub word_le_nat_alt)
  with \<open>unat (sp chip) < 16\<close> show b: "unat (sp chip - 1) < STACK_SIZE"
    by (simp add: STACK_SIZE_def)
  then show "perform_instruction key_state random_byte 0x00EE chip
        = Inr (chip\<lparr>sp := sp chip - 1, pc := stack chip (unat (sp chip - 1))\<rparr>)"
    by (simp add: perform_instruction_def opcode_def op_00EE_def)
qed

theorem return_needs_nonempty_stack_witness:
  "perform_instruction no_keys 0 0x00EE blank_chip
     = Inl (StackOutOfBounds 255, blank_chip\<lparr>sp := 255\<rparr>)
   \<and> perform_instruction no_keys 0 0x00EE (blank_chip\<lparr>sp := 1, stack := (\<lambda>i. 0x202)\<rparr>)
     = Inr (blank_chip\<lparr>sp := 0, stack := (\<lambda>i. 0x202), pc := 0x202\<rparr>)"
  using return_needs_nonempty_stack [of blank_chip no_keys 0]
        return_needs_nonempty_stack [of "blank_chip\<lparr>sp := 1, stack := (\<lambda>i. 0x202)\<rparr>" no_keys 0]
  by (simp add: blank_chip_def)

text \<open>
  Over all values of the stack pointer byte, the return runs outside the stack exactly
  when SP is 0 or above 16.
\<close>

lemma return_faults_iff:
  "isl (perform_instruction key_state random_byte 0x00EE chip) \<longleftrightarrow> sp chip = 0 \<or> sp chip > 16"
proof (cases "sp chip = 0")
  case True
  then show ?thesis
    by (simp add: perform_00EE op_00EE_def STACK_SIZE_def unsigned_minus_1_eq_mask
        mask_eq_exp_minus_1)
next
  case False
  then have "unat (sp chip) \<ge> 1" by (simp add: unat_gt_0 Suc_leI word_neq_0_conv)
  then have "unat (sp chip - 1) = unat (sp chip) - 1"
    by (simp add: unat_sub word_le_nat_alt)
  moreover have "(sp chip > 16) = (unat (sp chip) > 16)" by (simp add: word_less_nat_alt)
  ultimately show ?thesis using False \<open>unat (sp chip) \<ge> 1\<close>
    by (auto simp: perform_00EE op_00EE_def STACK_SIZE_def Let_def)
qed

section \<open>Call and return\<close>

text \<open>
  C3. With SP below 15, a 2nnn fetched at address \<open>pc\<close> and performed, followed by a
  00EE fetched at the call target and performed, leaves PC at \<open>pc + 2\<close>, the address
  right after the call instruction, and SP at its value before the call. Both
  instructions complete.
\<close>

theorem call_then_return:
  assumes "fetch_instruction chip = Inr (call, chip1)"
    and "opcode call = 2"
    and "sp chip < 15"
  shows "\<exists>chip2. perform_instruction key_state random_byte call chip1 = Inr chip2
           \<and> (\<forall>chip3. fetch_instruction chip2 = Inr (0x00EE, chip3) \<longrightarrow>
                (\<exists>chip4. perform_instruction key_state' random_byte' 0x00EE chip3 = Inr chip4
                   \<and> pc chip4 = pc chip + 2 \<and> sp chip4 = sp chip))"
proof -
  from assms(1) have c1: "chip1 = chip\<lparr>pc := pc chip + 2\<rparr>"
    by (rule fetch_instruction_Inr)
  let ?chip2 = "op_2nnn call chip1"
  have p2: "perform_instruction key_state random_byte call chip1 = Inr ?chip2"
    using assms(2) by (rule perform_2nnn)
  have s2: "sp ?chip2 = sp chip + 1" "stack ?chip2 (unat (sp chip)) = pc chip + 2"
    using sp_below_15 [OF assms(3)] by (simp_all add: op_2nnn_def c1)
  have "\<exists>chip4. perform_instruction key_state' random_byte' 0x00EE chip3 = Inr chip4
                   \<and> pc chip4 = pc chip + 2 \<and> sp chip4 = sp chip"
    if "fetch_instruction ?chip2 = Inr (0x00EE, chip3)" for chip3
  proof -
    from that have c3: "chip3 = ?chip2\<lparr>pc := pc ?chip2 + 2\<rparr>"
      by (rule fetch_instruction_Inr)
    have "sp chip3 = sp chip + 1" "stack chip3 (unat (sp chip)) = pc chip + 2"
      using s2 by (simp_all add: c3)
    then show ?thesis
      using sp_below_15 [OF assms(3)]
      by (simp add: perform_00EE op_00EE_def Let_def STACK_SIZE_def)
  qed
  with p2 show ?thesis by blast
qed

lemma fetch_call_chip:
  "fetch_instruction call_chip = Inr (0x2300, call_chip\<lparr>pc := 0x202\<rparr>)"
  by (simp add: fetch_instruction_def call_chip_def blank_chip_def RAM_SIZE_def Let_def)

theorem call_then_return_witness:
  "\<exists>chip2. perform_instruction no_keys 0 0x2300 (call_chip\<lparr>pc := 0x202\<rparr>) = Inr chip2
     \<and> (\<forall>chip3. fetch_instruction chip2 = Inr (0x00EE, chip3) \<longrightarrow>
          (\<exists>chip4. perform_instruction no_keys 0 0x00EE chip3 = Inr chip4
             \<and> pc chip4 = 0x202 \<and> sp chip4 = 0))"
  using call_then_return [OF fetch_call_chip, of no_keys 0 no_keys 0]
  by (simp add: opcode_def call_chip_def blank_chip_def)

text \<open>
  C4. A 2nnn performed with SP = 15 writes the line "Stack overflow" to the error
  stream and changes nothing else: PC, SP, the registers, the stack, the index register
  and memory stay as they were. With SP below 15 it stores PC at \<open>stack[SP]\<close>,
  increments SP and loads PC with nnn. From SP = 0, fifteen calls in a row complete
  silently and the sixteenth is the one that reports the overflow.
\<close>

theorem call_overflow:
  "(opcode instruction = 2 \<and> sp chip = 15 \<longrightarrow>
      perform_instruction key_state random_byte instruction chip
        = Inr (chip\<lparr>cerr := cerr chip @ [''Stack overflow'']\<rparr>))
   \<and> (opcode instruction = 2 \<and> sp chip < 15 \<longrightarrow>
      perform_instruction key_state random_byte instruction chip
        = Inr (chip\<lparr>stack := (stack chip)(unat (sp chip) := pc chip),
                    sp := sp chip + 1, pc := nnn instruction\<rparr>))
   \<and> (sp chip = 0 \<and> length calls = 16 \<and> (\<forall>c \<in> set calls. opcode c = 2) \<longrightarrow>
      (\<exists>chip15. perform_all key_state random_byte (take 15 calls) chip = Inr chip15
         \<and> cerr chip15 = cerr chip \<and> sp chip15 = 15
         \<and> perform_instruction key_state random_byte (calls ! 15) chip15
             = Inr (chip15\<lparr>cerr := cerr chip15 @ [''Stack overflow'']\<rparr>)))"
proof (intro conjI impI)
  assume "opcode instruction = 2 \<and> sp chip = 15"
  then show "perform_instruction key_state random_byte instruction chip
        = Inr (chip\<lparr>cerr := cerr chip @ [''Stack overflow'']\<rparr>)"
    by (simp add: perform_2nnn op_2nnn_def)
next
  assume "opcode instruction = 2 \<and> sp chip < 15"
  then show "perform_instruction key_state random_byte instruction chip
        = Inr (chip\<lparr>stack := (stack chip)(unat (sp chip) := pc chip),
                    sp := sp chip + 1, pc := nnn instruction\<rparr>)"
    using sp_below_15 [of "sp chip"] by (simp add: perform_2nnn op_2nnn_def nnn_def)
next
  assume a: "sp chip = 0 \<and> length calls = 16 \<and> (\<forall>c \<in> set calls. opcode c = 2)"
  then have "\<forall>c \<in> set (take 15 calls). opcode c = 2"
    by (meson in_set_takeD)
  moreover from a have "unat (sp chip) + length (take 15 calls) \<le> 15" by simp
  ultimately obtain chip15 where r:
    "perform_all key_state random_byte (take 15 calls) chip = Inr chip15"
    "unat (sp chip15) = unat (sp chip) + length (take 15 calls)" "cerr chip15 = cerr chip"
    using perform_all_calls [of "take 15 calls" chip key_state random_byte] by blast
  from r(2) a have "unat (sp chip15) = 15" by simp
  then have "unat (sp chip15) = unat (15 :: u8)" by simp
  then have s15: "sp chip15 = 15" by (simp only: word_unat_eq_iff)
  from a have "opcode (calls ! 15) = 2" by simp
  with s15 have "perform_instruction key_state random_byte (calls ! 15) chip15
             = Inr (chip15\<lparr>cerr := cerr chip15 @ [''Stack overflow'']\<rparr>)"
    by (simp add: perform_2nnn op_2nnn_def)
  with r(1,3) s15 show "\<exists>chip15. perform_all key_state random_byte (take 15 calls) chip = Inr chip15
         \<and> cerr chip15 = cerr chip \<and> sp chip15 = 15
         \<and> perform_instruction key_state random_byte (calls ! 15) chip15
             = Inr (chip15\<lparr>cerr := cerr chip15 @ [''Stack overflow'']\<rparr>)"
    by blast
qed

theorem call_overflow_witness:
  "perform_instruction no_keys 0 0x2300 (blank_chip\<lparr>sp := 15\<rparr>)
     = Inr (blank_chip\<lparr>sp := 15, cerr := [''Stack overflow'']\<rparr>)
   \<and> perform_instruction no_keys 0 0x2300 blank_chip
     = Inr (blank_chip\<lparr>stack := (\<lambda>i. 0)(0 := 0x200), sp := 1, pc := 0x300\<rparr>)
   \<and> (\<exists>chip15. perform_all no_keys 0 (replicate 15 0x2300) blank_chip = Inr chip15
         \<and> cerr chip15 = [] \<and> sp chip15 = 15
         \<and> perform_instruction no_keys 0 0x2300 chip15
             = Inr (chip15\<lparr>cerr := [''Stack overflow'']\<rparr>))"
proof -
  have d: "opcode 0x2300 = 2" "nnn 0x2300 = 0x300"
    by (simp_all add: opcode_def nnn_def)
  have t: "take 15 (replicate 16 (0x2300 :: u16)) = replicate 15 0x2300"
    "replicate 16 (0x2300 :: u16) ! 15 = 0x2300"
    by simp_all
  note full = call_overflow [where instruction = "0x2300" and chip = "blank_chip\<lparr>sp := 15\<rparr>"
      and key_state = no_keys and random_byte = 0 and calls = "replicate 16 0x2300"]
  note empty = call_overflow [where instruction = "0x2300" and chip = blank_chip
      and key_state = no_keys and random_byte = 0 and calls = "replicate 16 0x2300"]
  have a: "perform_instruction no_keys 0 0x2300 (blank_chip\<lparr>sp := 15\<rparr>)
     = Inr (blank_chip\<lparr>sp := 15, cerr := [''Stack overflow'']\<rparr>)"
    using full [THEN conjunct1] by (simp add: d blank_chip_def)
  have b: "perform_instruction no_keys 0 0x2300 blank_chip
     = Inr (blank_chip\<lparr>stack := (\<lambda>i. 0)(0 := 0x200), sp := 1, pc := 0x300\<rparr>)"
    using empty [THEN conjunct2, THEN conjunct1] by (simp add: d blank_chip_def)
  have "sp blank_chip = 0 \<and> length (replicate 16 (0x2300 :: u16)) = 16
      \<and> (\<forall>c \<in> set (replicate 16 (0x2300 :: u16)). opcode c = 2)"
    by (simp add: d blank_chip_def)
  with empty [THEN conjunct2, THEN conjunct2] obtain chip15 where
    c: "perform_all no_keys 0 (take 15 (replicate 16 0x2300)) blank_chip = Inr chip15"
      "cerr chip15 = cerr blank_chip" "sp chip15 = 15"
      "perform_instruction no_keys 0 (replicate 16 0x2300 ! 15) chip15
             = Inr (chip15\<lparr>cerr := cerr chip15 @ [''Stack overflow'']\<rparr>)"
    by blast
  from c have "perform_all no_keys 0 (replicate 15 0x2300) blank_chip = Inr chip15
         \<and> cerr chip15 = [] \<and> sp chip15 = 15
         \<and> perform_instruction no_keys 0 0x2300 chip15
             = Inr (chip15\<lparr>cerr := [''Stack overflow'']\<rparr>)"
    by (simp add: t blank_chip_def)
  with a b show ?thesis by blast
qed

section \<open>Wait for key\<close>

text \<open>
  C6. For every register number \<open>x\<close> from 0 to F, the instruction Fx0A (the word
  \<open>0xF00A + 0x100 * x\<close>) stores in Vx the hex value of the first key held down in the
  priority order 1, 2, 3, 4, 5, 6, 7, 8, 9, A, 0, B, C, D, E, F, under any key state, and
  leaves the rest of the machine alone. When no key is held down it subtracts 2 from PC
  and changes nothing else.
\<close>

theorem wait_for_key:
  assumes "x < 16"
  shows "perform_instruction key_state random_byte (0xF00A + 0x100 * of_nat x) chip =
           Inr (case first_pressed key_state of
                  Some h \<Rightarrow> chip\<lparr>v := (v chip)(x := h)\<rparr>
                | None \<Rightarrow> chip\<lparr>pc := pc chip - 2\<rparr>)"
proof -
  let ?i = "0xF00A + 0x100 * of_nat x :: u16"
  from Fx0A_fields [OF assms]
  have d: "opcode ?i = 0xF" "last8 ?i = 0x0A" "x_reg_num ?i = x" by simp_all
  have "perform_instruction key_state random_byte ?i chip = Inr (op_Fx0A key_state x chip)"
    using d by (simp add: perform_instruction_def op_Fx_def)
  moreover have "op_Fx0A key_state x chip =
           (case first_pressed key_state of
                  Some h \<Rightarrow> chip\<lparr>v := (v chip)(x := h)\<rparr>
                | None \<Rightarrow> chip\<lparr>pc := pc chip - 2\<rparr>)"
    using assms
    by (simp add: op_Fx0A_first_pressed put_value_in_Vreg_def split: option.split)
  ultimately show ?thesis by simp
qed

theorem wait_for_key_witness:
  "perform_instruction (no_keys(KEYCODE_W := True, KEYCODE_C := True)) 0 0xF30A blank_chip
     = Inr (blank_chip\<lparr>v := (v blank_chip)(3 := 5)\<rparr>)
   \<and> v blank_chip 3 = 0
   \<and> perform_instruction (no_keys(KEYCODE_X := True, KEYCODE_C := True)) 0 0xF30A flag_chip
     = Inr (flag_chip\<lparr>v := (v flag_chip)(3 := 0)\<rparr>)
   \<and> v flag_chip 3 = 3
   \<and> perform_instruction no_keys 0 0xF30A blank_chip = Inr (blank_chip\<lparr>pc := 0x1FE\<rparr>)"
proof -
  have x: "(3::nat) < 16" by simp
  have i: "(0xF00A + 0x100 * of_nat 3 :: u16) = 0xF30A" by simp
  have f: "first_pressed (no_keys(KEYCODE_W := True, KEYCODE_C := True)) = Some 5"
       "first_pressed (no_keys(KEYCODE_X := True, KEYCODE_C := True)) = Some 0"
       "first_pressed no_keys = None"
    by (simp_all add: first_pressed_def key_priority_def get_keycode_from_u8_def key_down_def
        no_keys_def)
  have a: "perform_instruction (no_keys(KEYCODE_W := True, KEYCODE_C := True)) 0 0xF30A blank_chip
     = Inr (blank_chip\<lparr>v := (v blank_chip)(3 := 5)\<rparr>)"
    using wait_for_key [OF x, of "no_keys(KEYCODE_W := True, KEYCODE_C := True)" 0 blank_chip]
    by (simp only: i f option.case)
  have b: "perform_instruction (no_keys(KEYCODE_X := True, KEYCODE_C := True)) 0 0xF30A flag_chip
     = Inr (flag_chip\<lparr>v := (v flag_chip)(3 := 0)\<rparr>)"
    using wait_for_key [OF x, of "no_keys(KEYCODE_X := True, KEYCODE_C := True)" 0 flag_chip]
    by (simp only: i f option.case)
  have c: "perform_instruction no_keys 0 0xF30A blank_chip = Inr (blank_chip\<lparr>pc := 0x1FE\<rparr>)"
    using wait_for_key [OF x, of no_keys 0 blank_chip]
    by (simp add: i f blank_chip_def)
  have "v blank_chip 3 = 0" "v flag_chip 3 = 3"
    by (simp_all add: blank_chip_def flag_chip_def)
  with a b c show ?thesis by blast
qed

section \<open>Register store and load\<close>



section \<open>Flag order in family 8xy_\<close>

text \<open>
  When the destination is not VF, the later variant leaves in VF the flag computed from
  the operands as they were before the instruction.
\<close>

lemma flag_from_operands:
  assumes "opcode instruction = 0x8" and "x_reg_num instruction \<noteq> 15"
    and "finalNib instruction = 0x4 \<or> finalNib instruction = 0x5 \<or> finalNib instruction = 0x7"
  shows "\<exists>chip'. perform_instruction key_state random_byte instruction chip = Inr chip'
           \<and> v chip' 15 = spec_flag (finalNib instruction)
                (get_value_in_Vreg (x_reg_num instruction) chip)
                (get_value_in_Vreg (y_reg_num instruction) chip)"
proof -
  have "perform_instruction key_state random_byte instruction chip
          = Inr (op_8xy instruction chip)"
    using assms(1) by (simp add: perform_instruction_def)
  moreover have "v (op_8xy instruction chip) 15 = spec_flag (finalNib instruction)
                (get_value_in_Vreg (x_reg_num instruction) chip)
                (get_value_in_Vreg (y_reg_num instruction) chip)"
    using assms(2,3) x_reg_num_less [of instruction]
    by (auto simp: op_8xy_def Let_def spec_flag_def put_value_in_Vreg_def carry_u16)
  ultimately show ?thesis by simp
qed

text \<open>
  C1. The flag register after 8xy4, 8xy5 and 8xy7 is the carry or borrow of the operands
  as they were before the instruction, also for x = F. The later variant writes VF first
  and the destination second, so for x = F the result overwrites the flag: with VF = 5
  and V3 = 3, 8F34 leaves 8 in VF where the carry is 0, 8F35 leaves 2 where the flag is
  1, and 8F37 leaves 254 where the flag is 0.
\<close>

theorem flag_overwritten_when_x_is_F:
  "perform_instruction no_keys 0 0x8F34 flag_chip = Inr (flag_chip\<lparr>v := (v flag_chip)(15 := 8)\<rparr>)
   \<and> spec_flag 0x4 (v flag_chip 15) (v flag_chip 3) = 0
   \<and> perform_instruction no_keys 0 0x8F35 flag_chip = Inr (flag_chip\<lparr>v := (v flag_chip)(15 := 2)\<rparr>)
   \<and> spec_flag 0x5 (v flag_chip 15) (v flag_chip 3) = 1
   \<and> perform_instruction no_keys 0 0x8F37 flag_chip = Inr (flag_chip\<lparr>v := (v flag_chip)(15 := 254)\<rparr>)
   \<and> spec_flag 0x7 (v flag_chip 15) (v flag_chip 3) = 0"
  by (simp add: perform_instruction_def opcode_def op_8xy_def finalNib_def x_reg_num_def
      y_reg_num_def get_value_in_Vreg_def put_value_in_Vreg_def flag_chip_def blank_chip_def
      spec_flag_def minus_two_u8 Let_def)

text \<open>
  On 8xy6 both variants write VF first and the destination second: on 8F36 with VF = 5
  they end with the same machine, VF = 2.
\<close>

theorem variants_agree_on_8xy6_counterexample:
  "perform_instruction no_keys 0 0x8F36 flag_chip
     = Inr (flag_chip\<lparr>v := (v flag_chip)(15 := 2)\<rparr>)
   \<and> perform_instruction_chip8cpp 0x8F36 flag_chip
     = Inr (flag_chip\<lparr>v := (v flag_chip)(15 := 2)\<rparr>)"
  by (simp add: eval_8xy eval_8xy_chip8cpp)

text \<open>
  C8, amended. The two variants differ on 8xy4, 8xy5, 8xy7 and 8xyE in the order of the
  two register writes (the later variant writes VF first, \<^verbatim>\<open>chip8.cpp\<close> the
  destination first), and the difference shows when the destination is VF: with VF = 5
  and V3 = 3, the later variant and \<^verbatim>\<open>chip8.cpp\<close> end with VF = 8 and 0 on 8F34,
  2 and 1 on 8F35, 254 and 0 on 8F37, 10 and 0 on 8F3E. On 8xy6 the two variants write in
  the same order and give the same machine for every x. For every instruction of the
  family with x other than F the two variants give the same machine.
\<close>

theorem variants_differ_at_xF_except_8xy6:
  "perform_instruction key_state random_byte 0x8F34 flag_chip
     = Inr (flag_chip\<lparr>v := (v flag_chip)(15 := 8)\<rparr>)
   \<and> perform_instruction_chip8cpp 0x8F34 flag_chip
     = Inr (flag_chip\<lparr>v := (v flag_chip)(15 := 0)\<rparr>)
   \<and> perform_instruction key_state random_byte 0x8F35 flag_chip
     = Inr (flag_chip\<lparr>v := (v flag_chip)(15 := 2)\<rparr>)
   \<and> perform_instruction_chip8cpp 0x8F35 flag_chip
     = Inr (flag_chip\<lparr>v := (v flag_chip)(15 := 1)\<rparr>)
   \<and> perform_instruction key_state random_byte 0x8F37 flag_chip
     = Inr (flag_chip\<lparr>v := (v flag_chip)(15 := 254)\<rparr>)
   \<and> perform_instruction_chip8cpp 0x8F37 flag_chip
     = Inr (flag_chip\<lparr>v := (v flag_chip)(15 := 0)\<rparr>)
   \<and> perform_instruction key_state random_byte 0x8F3E flag_chip
     = Inr (flag_chip\<lparr>v := (v flag_chip)(15 := 10)\<rparr>)
   \<and> perform_instruction_chip8cpp 0x8F3E flag_chip
     = Inr (flag_chip\<lparr>v := (v flag_chip)(15 := 0)\<rparr>)
   \<and> perform_instruction key_state random_byte 0x8F34 flag_chip
       \<noteq> perform_instruction_chip8cpp 0x8F34 flag_chip
   \<and> perform_instruction key_state random_byte 0x8F35 flag_chip
       \<noteq> perform_instruction_chip8cpp 0x8F35 flag_chip
   \<and> perform_instruction key_state random_byte 0x8F37 flag_chip
       \<noteq> perform_instruction_chip8cpp 0x8F37 flag_chip
   \<and> perform_instruction key_state random_byte 0x8F3E flag_chip
       \<noteq> perform_instruction_chip8cpp 0x8F3E flag_chip
   \<and> (opcode instruction = 0x8 \<and> x_reg_num instruction \<noteq> 15 \<longrightarrow>
        perform_instruction key_state random_byte instruction chip
          = perform_instruction_chip8cpp instruction chip)
   \<and> (opcode instruction = 0x8 \<and> finalNib instruction = 0x6 \<longrightarrow>
        perform_instruction key_state random_byte instruction chip
          = perform_instruction_chip8cpp instruction chip)"
proof -
  have n4: "perform_instruction key_state random_byte 0x8F34 flag_chip
     = Inr (flag_chip\<lparr>v := (v flag_chip)(15 := 8)\<rparr>)"
    by (simp add: eval_8xy)
  have o4: "perform_instruction_chip8cpp 0x8F34 flag_chip
     = Inr (flag_chip\<lparr>v := (v flag_chip)(15 := 0)\<rparr>)"
    by (simp add: eval_8xy_chip8cpp)
  have n5: "perform_instruction key_state random_byte 0x8F35 flag_chip
     = Inr (flag_chip\<lparr>v := (v flag_chip)(15 := 2)\<rparr>)"
    by (simp add: eval_8xy)
  have o5: "perform_instruction_chip8cpp 0x8F35 flag_chip
     = Inr (flag_chip\<lparr>v := (v flag_chip)(15 := 1)\<rparr>)"
    by (simp add: eval_8xy_chip8cpp)
  have n7: "perform_instruction key_state random_byte 0x8F37 flag_chip
     = Inr (flag_chip\<lparr>v := (v flag_chip)(15 := 254)\<rparr>)"
    by (simp add: eval_8xy minus_two_u8)
  have o7: "perform_instruction_chip8cpp 0x8F37 flag_chip
     = Inr (flag_chip\<lparr>v := (v flag_chip)(15 := 0)\<rparr>)"
    by (simp add: eval_8xy_chip8cpp)
  have nE: "perform_instruction key_state random_byte 0x8F3E flag_chip
     = Inr (flag_chip\<lparr>v := (v flag_chip)(15 := 10)\<rparr>)"
    by (simp add: eval_8xy)
  have oE: "perform_instruction_chip8cpp 0x8F3E flag_chip
     = Inr (flag_chip\<lparr>v := (v flag_chip)(15 := 0)\<rparr>)"
    by (simp add: eval_8xy_chip8cpp)
  have d4: "perform_instruction key_state random_byte 0x8F34 flag_chip
       \<noteq> perform_instruction_chip8cpp 0x8F34 flag_chip"
    unfolding n4 o4 by (rule flag_chip_updates_differ) simp
  have d5: "perform_instruction key_state random_byte 0x8F35 flag_chip
       \<noteq> perform_instruction_chip8cpp 0x8F35 flag_chip"
    unfolding n5 o5 by (rule flag_chip_updates_differ) simp
  have d7: "perform_instruction key_state random_byte 0x8F37 flag_chip
       \<noteq> perform_instruction_chip8cpp 0x8F37 flag_chip"
    unfolding n7 o7 by (rule flag_chip_updates_differ) simp
  have dE: "perform_instruction key_state random_byte 0x8F3E flag_chip
       \<noteq> perform_instruction_chip8cpp 0x8F3E flag_chip"
    unfolding nE oE by (rule flag_chip_updates_differ) simp
  have ax: "opcode instruction = 0x8 \<and> x_reg_num instruction \<noteq> 15 \<longrightarrow>
        perform_instruction key_state random_byte instruction chip
          = perform_instruction_chip8cpp instruction chip"
    by (simp add: perform_instruction_def perform_instruction_chip8cpp_def op_8xy_agree)
  have a6: "opcode instruction = 0x8 \<and> finalNib instruction = 0x6 \<longrightarrow>
        perform_instruction key_state random_byte instruction chip
          = perform_instruction_chip8cpp instruction chip"
    by (simp add: perform_instruction_def perform_instruction_chip8cpp_def op_8xy_agree_6)
  from n4 o4 n5 o5 n7 o7 nE oE d4 d5 d7 dE ax a6 show ?thesis by (intro conjI)
qed

theorem variants_differ_at_xF_except_8xy6_witness:
  "perform_instruction no_keys 0 0x8F3E flag_chip \<noteq> perform_instruction_chip8cpp 0x8F3E flag_chip
   \<and> perform_instruction no_keys 0 0x8354 flag_chip = perform_instruction_chip8cpp 0x8354 flag_chip
   \<and> perform_instruction no_keys 0 0x8F36 regs_chip = perform_instruction_chip8cpp 0x8F36 regs_chip"
proof -
  have "opcode 0x8354 = 0x8 \<and> x_reg_num 0x8354 \<noteq> 15"
    "opcode 0x8F36 = 0x8 \<and> finalNib 0x8F36 = 0x6"
    by (simp_all add: opcode_def x_reg_num_def finalNib_def)
  with variants_differ_at_xF_except_8xy6 [where key_state = no_keys and random_byte = 0
        and instruction = "0x8354" and chip = flag_chip]
    variants_differ_at_xF_except_8xy6 [where key_state = no_keys and random_byte = 0
        and instruction = "0x8F36" and chip = regs_chip]
  show ?thesis by blast
qed

section \<open>Loading a ROM\<close>

text \<open>
  A file of 3585 bytes is not rejected: nothing is written to the error stream, the byte
  at 0x200 is overwritten, and the copy ends with a write at index 4096, outside the
  memory bank.
\<close>

theorem rom_too_large_counterexample:
  "isl (load_rom ''big.ch8'' (RomBytes (replicate 3585 0xAA)) blank_chip)
   \<and> fst (projl (load_rom ''big.ch8'' (RomBytes (replicate 3585 0xAA)) blank_chip))
       = RamOutOfBounds 4096
   \<and> ram (snd (projl (load_rom ''big.ch8'' (RomBytes (replicate 3585 0xAA)) blank_chip))) 0x200
       = 0xAA
   \<and> ram blank_chip 0x200 = 0
   \<and> cerr (snd (projl (load_rom ''big.ch8'' (RomBytes (replicate 3585 0xAA)) blank_chip))) = []"
proof -
  have "ROM_START + length (replicate 3585 (0xAA :: u8)) > RAM_SIZE" "ROM_START + 0 \<le> RAM_SIZE"
    by (simp_all add: ROM_START_def RAM_SIZE_def)
  from loop_load_rom_overflow [OF this, of blank_chip, unfolded ROM_START_def RAM_SIZE_def]
  show ?thesis
    by (simp add: load_rom_def blank_chip_def)
qed

text \<open>
  C5, amended. The loader has no size check. A blob of at most 3584 bytes is copied
  verbatim to memory from address 0x200 and nothing else changes. A longer blob is not
  rejected: its first 3584 bytes are copied to 0x200 .. 0xFFF and the next write is at
  index 4096, outside the memory bank; nothing is reported on the error stream.
\<close>

theorem rom_copy_unchecked:
  "(length buffer \<le> 3584 \<longrightarrow>
      load_rom fileName (RomBytes buffer) chip =
        Inr (chip\<lparr>ram := (\<lambda>a. if 0x200 \<le> a \<and> a < 0x200 + length buffer
                              then buffer ! (a - 0x200) else ram chip a)\<rparr>))
   \<and> (length buffer > 3584 \<longrightarrow>
      load_rom fileName (RomBytes buffer) chip =
        Inl (RamOutOfBounds 4096,
             chip\<lparr>ram := (\<lambda>a. if 0x200 \<le> a \<and> a < 4096
                              then buffer ! (a - 0x200) else ram chip a)\<rparr>))"
proof (intro conjI impI)
  assume "length buffer \<le> 3584"
  then have "ROM_START + length buffer \<le> RAM_SIZE"
    by (simp add: ROM_START_def RAM_SIZE_def)
  from loop_load_rom_fits [OF this, of 0 chip, unfolded ROM_START_def]
  show "load_rom fileName (RomBytes buffer) chip =
        Inr (chip\<lparr>ram := (\<lambda>a. if 0x200 \<le> a \<and> a < 0x200 + length buffer
                              then buffer ! (a - 0x200) else ram chip a)\<rparr>)"
    by (simp add: load_rom_def ROM_START_def)
next
  assume "length buffer > 3584"
  then have "ROM_START + length buffer > RAM_SIZE" "ROM_START + 0 \<le> RAM_SIZE"
    by (simp_all add: ROM_START_def RAM_SIZE_def)
  from loop_load_rom_overflow [OF this, of chip, unfolded ROM_START_def RAM_SIZE_def]
  show "load_rom fileName (RomBytes buffer) chip =
        Inl (RamOutOfBounds 4096,
             chip\<lparr>ram := (\<lambda>a. if 0x200 \<le> a \<and> a < 4096
                              then buffer ! (a - 0x200) else ram chip a)\<rparr>)"
    by (simp add: load_rom_def ROM_START_def RAM_SIZE_def)
qed

theorem rom_copy_unchecked_witness:
  "load_rom ''tiny.ch8'' (RomBytes [0x12, 0x00]) blank_chip =
     Inr (blank_chip\<lparr>ram := (\<lambda>a. if 0x200 \<le> a \<and> a < 0x202 then [0x12, 0x00] ! (a - 0x200) else ram blank_chip a)\<rparr>)
   \<and> isl (load_rom ''big.ch8'' (RomBytes (replicate 3585 0xAA)) blank_chip)"
  using rom_copy_unchecked [of "[0x12, 0x00]" "''tiny.ch8''" blank_chip]
    rom_copy_unchecked [of "replicate 3585 0xAA" "''big.ch8''" blank_chip]
  by simp

section \<open>Parity of the program counter\<close>

text \<open>
  From the even address 0x200 the program \<^verbatim>\<open>1203\<close> jumps to 0x203, and the
  next fetch leaves PC at 0x205, an odd address.
\<close>

theorem pc_odd_after_fetch_counterexample:
  "even (pc odd_jump_chip)
   \<and> cycle no_keys 0 odd_jump_chip = Inr (odd_jump_chip\<lparr>pc := 0x203\<rparr>)
   \<and> fetch_instruction (odd_jump_chip\<lparr>pc := 0x203\<rparr>) = Inr (0, odd_jump_chip\<lparr>pc := 0x205\<rparr>)
   \<and> odd (pc (odd_jump_chip\<lparr>pc := 0x205\<rparr>))"
  by (simp add: cycle_def fetch_instruction_def perform_instruction_def opcode_def
      odd_jump_chip_def blank_chip_def RAM_SIZE_def Let_def)

text \<open>
  C9, amended. A fetch adds 2 to PC. Starting from an even PC with even return addresses
  on the stack (an empty stack in particular), PC is even after every fetch of every run
  whose instructions load only even addresses into PC: the targets of 1nnn, of 2nnn
  calls that are not dropped, and of Bnnn. Returns need no condition, since calls stack
  even addresses.
\<close>

theorem pc_even_after_fetch:
  assumes "even (pc chip0)" and "stack_even chip0"
    and "even_targets inputs chip0"
    and "run_cycles inputs chip0 = Inr chip"
    and "fetch_instruction chip = Inr (instruction, chip1)"
  shows "even (pc chip1) \<and> pc chip1 = pc chip + 2"
proof -
  from assms(1,2) have "even_pc_inv chip0" by (simp add: even_pc_inv_def)
  from this assms(3,4) have "even_pc_inv chip" by (rule run_cycles_inv)
  from this assms(5) have "even_pc_inv chip1" by (rule fetch_instruction_inv)
  moreover from assms(5) have "pc chip1 = pc chip + 2"
    by (auto dest: fetch_instruction_Inr)
  ultimately show ?thesis by (simp add: even_pc_inv_def)
qed

theorem pc_even_after_fetch_witness:
  "even (pc (even_jump_chip\<lparr>pc := 0x206\<rparr>))"
proof -
  have "even (pc even_jump_chip)" "stack_even even_jump_chip"
    by (simp_all add: even_jump_chip_def blank_chip_def stack_even_def)
  from pc_even_after_fetch [OF this run_even_jump_chip(2,1) fetch_even_jump_chip(2)]
  show ?thesis by simp
qed

section \<open>Sprite drawing\<close>



end
